theory Spec2Isabelle
  imports Main
begin

section \<open>Paths and the file system\<close>

text \<open>
  \<^verbatim>\<open>startHTTPSServer\<close> builds the two paths it probes with Go's
  \<^verbatim>\<open>filepath.Join\<close> and tests them with \<^verbatim>\<open>os.Stat\<close>.  Both are standard
  library functions; they are written out here for Unix paths (separator \<^verbatim>\<open>/\<close>) after
  their documentation, so that the probe can be evaluated on concrete directories.

  \<^verbatim>\<open>filepath.Clean\<close>: replace multiple separators by one, drop every \<^verbatim>\<open>.\<close> element, drop
  every inner \<^verbatim>\<open>..\<close> element together with the element before it, drop \<^verbatim>\<open>..\<close> elements
  that begin a rooted path, and return \<^verbatim>\<open>.\<close> for an empty result.
\<close>

fun split_sep :: "char \<Rightarrow> string \<Rightarrow> string list" where
  "split_sep c [] = [[]]"
| "split_sep c (x # xs) =
     (if x = c then [] # split_sep c xs
      else (case split_sep c xs of
              [] \<Rightarrow> [[x]]
            | w # ws \<Rightarrow> (x # w) # ws))"

fun join_sep :: "string \<Rightarrow> string list \<Rightarrow> string" where
  "join_sep sep [] = []"
| "join_sep sep [w] = w"
| "join_sep sep (w # v # ws) = w @ sep @ join_sep sep (v # ws)"

fun clean_elems :: "bool \<Rightarrow> string list \<Rightarrow> string list \<Rightarrow> string list" where
  "clean_elems rooted out [] = out"
| "clean_elems rooted out (c # cs) =
     (if c = [] \<or> c = ''.'' then clean_elems rooted out cs
      else if c = ''..'' then
        (if out \<noteq> [] \<and> last out \<noteq> ''..'' then clean_elems rooted (butlast out) cs
         else if rooted then clean_elems rooted out cs
         else clean_elems rooted (out @ [c]) cs)
      else clean_elems rooted (out @ [c]) cs)"

definition filepath_Clean :: "string \<Rightarrow> string" where
  "filepath_Clean path =
     (let rooted = (case path of [] \<Rightarrow> False | x # _ \<Rightarrow> x = CHR ''/'');
          out = clean_elems rooted [] (split_sep (CHR ''/'') path);
          res = (if rooted then ''/'' else []) @ join_sep ''/'' out
      in if res = [] then ''.'' else res)"

text \<open>
  \<^verbatim>\<open>filepath.Join(elem...)\<close>: leading empty elements are ignored, the rest is joined
  with the separator and cleaned; the result is empty when every element is empty.
\<close>

definition filepath_Join :: "string list \<Rightarrow> string" where
  "filepath_Join elem =
     (case dropWhile (\<lambda>e. e = []) elem of
        [] \<Rightarrow> []
      | es \<Rightarrow> filepath_Clean (join_sep ''/'' es))"

text \<open>
  The file system is the set of (clean) paths on which \<^verbatim>\<open>os.Stat\<close> returns no error.
\<close>

definition os_Stat :: "string set \<Rightarrow> string \<Rightarrow> bool" where
  "os_Stat files path = (path \<in> files)"

section \<open>The TLS material probe of \<^verbatim>\<open>startHTTPSServer\<close>\<close>

text \<open>
  The environment of a run: the configured certificate directory (\<^verbatim>\<open>conf.CertDir\<close>),
  the address of the TLS server (\<^verbatim>\<open>httpsServer.Addr\<close>) and the file system.
\<close>

record env =
  certDir :: string
  httpsAddr :: string
  files :: "string set"

text \<open>
  The lines written by \<^verbatim>\<open>log.Printf\<close> in \<^verbatim>\<open>startHTTPSServer\<close>:
  \<^item> \<open>LogNoMaterial d\<close>: "Couldn't start https server. No cert.pem or key.pem in d";
  \<^item> \<open>LogHttpsStarting a\<close>: "HTTPS Server starting on: a".
\<close>

datatype log_line = LogNoMaterial string | LogHttpsStarting string

text \<open>
  Lines 118 to 129 of \<^verbatim>\<open>startHTTPSServer\<close>: the log output and, when both files
  are found, the pair \<open>(cert, key)\<close> handed to \<^verbatim>\<open>ListenAndServeTLS\<close>.  \<open>None\<close> is
  the early \<^verbatim>\<open>return\<close>.  The argument of \<^verbatim>\<open>filepath.Join\<close> is the single string
  \<^verbatim>\<open>certDir + "cert.pem"\<close>, as in the source.
\<close>

definition startHTTPSServer_probe :: "env \<Rightarrow> log_line list \<times> (string \<times> string) option" where
  "startHTTPSServer_probe e =
     (let cert = filepath_Join [certDir e @ ''cert.pem''] in
      if \<not> os_Stat (files e) cert then ([LogNoMaterial (certDir e)], None)
      else
        let key = filepath_Join [certDir e @ ''key.pem''] in
        if \<not> os_Stat (files e) key then ([LogNoMaterial (certDir e)], None)
        else ([LogHttpsStarting (httpsAddr e)], Some (cert, key)))"

text \<open>
  What the specification asks of the probe, in its own words: both a certificate file
  and a private-key file exist at the fixed names \<^verbatim>\<open>cert.pem\<close> and \<^verbatim>\<open>key.pem\<close>
  joined inside the configured directory.
\<close>

definition spec_tls_material_present :: "env \<Rightarrow> bool" where
  "spec_tls_material_present e =
     (os_Stat (files e) (filepath_Join [certDir e, ''cert.pem'']) \<and>
      os_Stat (files e) (filepath_Join [certDir e, ''key.pem'']))"

section \<open>Channels\<close>

text \<open>
  A Go channel \<^verbatim>\<open>make(chan T, n)\<close>: its capacity and the values buffered in it.
  \<open>try_send\<close> is a send that does not need a receiver: it succeeds when the buffer has
  room and is \<open>None\<close> when the sender would have to wait for a receiver (always, on an
  unbuffered channel).  \<open>try_recv\<close> takes the oldest buffered value.
\<close>

record 'a chan =
  cap :: nat
  buf :: "'a list"

definition make_chan :: "nat \<Rightarrow> 'a chan" where
  "make_chan n = \<lparr>cap = n, buf = []\<rparr>"

definition try_send :: "'a chan \<Rightarrow> 'a \<Rightarrow> 'a chan option" where
  "try_send c v = (if length (buf c) < cap c then Some (c\<lparr>buf := buf c @ [v]\<rparr>) else None)"

definition try_recv :: "'a chan \<Rightarrow> ('a \<times> 'a chan) option" where
  "try_recv c = (case buf c of [] \<Rightarrow> None | v # vs \<Rightarrow> Some (v, c\<lparr>buf := vs\<rparr>))"

section \<open>The process: \<^verbatim>\<open>main\<close> from line 93 and its two listener tasks\<close>

datatype server = HttpServer | HttpsServer

text \<open>
  What \<^verbatim>\<open>ListenAndServe\<close> and \<^verbatim>\<open>ListenAndServeTLS\<close> return (never nil): an error
  of the start attempt (bind failure, invalid address, unreadable key pair), an error of
  the accept loop, or \<^verbatim>\<open>http.ErrServerClosed\<close> after \<^verbatim>\<open>Shutdown\<close> was called on
  the server.
\<close>

datatype srv_error = StartupError | RuntimeError | ErrServerClosed

datatype os_signal = SIGINT | SIGTERM

text \<open>
  What \<^verbatim>\<open>Shutdown(ctx)\<close> returns: nil, the context's error once its deadline has
  passed, or the error of closing the listeners.
\<close>

datatype shutdown_result = ShutdownOk | DeadlineExceeded | CloseError

text \<open>Time is counted in nanoseconds, as \<^verbatim>\<open>time.Duration\<close> does.\<close>

definition Second :: nat where
  "Second = 1000000000"

record go_context =
  deadline :: nat

definition WithTimeout :: "nat \<Rightarrow> nat \<Rightarrow> go_context" where
  "WithTimeout t d = \<lparr>deadline = t + d\<rparr>"

text \<open>
  A listener task is one of the two goroutines of lines 95 and 96.
  \<^item> \<open>T_Start\<close>: \<^verbatim>\<open>startHTTPSServer\<close> has not probed yet;
  \<^item> \<open>T_Returned\<close>: \<^verbatim>\<open>startHTTPSServer\<close> took an early \<^verbatim>\<open>return\<close>;
  \<^item> \<open>T_Serving\<close>: inside \<^verbatim>\<open>ListenAndServe\<close> or \<^verbatim>\<open>ListenAndServeTLS\<close>;
  \<^item> \<open>T_Sending e\<close>: the call returned \<open>e\<close> and the task is at \<^verbatim>\<open>errChan <- e\<close>;
  \<^item> \<open>T_Done\<close>: the send completed and the goroutine ended.
\<close>

datatype task = T_Start | T_Returned | T_Serving | T_Sending srv_error | T_Done

text \<open>
  Where \<^verbatim>\<open>main\<close> is: blocked in the \<^verbatim>\<open>select\<close> of line 101, inside a
  \<^verbatim>\<open>Shutdown(ctx)\<close> call of line 105 or 108, or gone with an exit status
  (\<^verbatim>\<open>log.Fatal\<close> and \<^verbatim>\<open>log.Fatalf\<close> exit with status 1, returning from
  \<^verbatim>\<open>main\<close> with status 0).
\<close>

datatype main_pc = AtSelect | InShutdown server go_context | Exited nat

text \<open>
  The observable record of a run, oldest event first: log lines, the return of a
  listener's serve call, a completed send on \<^verbatim>\<open>errChan\<close>, what \<^verbatim>\<open>main\<close>
  received from \<^verbatim>\<open>quit\<close> and from \<^verbatim>\<open>errChan\<close>, the line of a \<^verbatim>\<open>log.Fatal\<close> or
  \<^verbatim>\<open>log.Fatalf\<close>, and the \<^verbatim>\<open>Shutdown\<close> calls with their results.
\<close>

datatype event =
    EvLog log_line
  | EvListenReturn server srv_error
  | EvSend server srv_error
  | EvRecvSignal os_signal
  | EvRecvErr srv_error
  | EvFatal
  | EvStopCall server go_context
  | EvStopReturn server shutdown_result

record state =
  pc :: main_pc
  tasks :: "server \<Rightarrow> task"
  inShutdown :: "server \<Rightarrow> bool"
  errChan :: "srv_error chan"
  quit :: "os_signal chan"
  now :: nat
  trace :: "event list"

text \<open>
  The state when \<^verbatim>\<open>main\<close> reaches the \<^verbatim>\<open>select\<close>: \<^verbatim>\<open>errChan\<close> made
  without a buffer (line 93), both goroutines spawned (lines 95 and 96), \<^verbatim>\<open>quit\<close>
  made with a buffer of one and registered for SIGINT and SIGTERM (lines 98 and 99).
  Lines 93 to 99 touch nothing the two tasks read, so the moves a task makes before
  \<^verbatim>\<open>main\<close> reaches the \<^verbatim>\<open>select\<close> are moves of a run from this state.
\<close>

definition init :: state where
  "init = \<lparr>pc = AtSelect,
           tasks = (\<lambda>i. case i of HttpServer \<Rightarrow> T_Serving | HttpsServer \<Rightarrow> T_Start),
           inShutdown = (\<lambda>i. False),
           errChan = make_chan 0,
           quit = make_chan 1,
           now = 0,
           trace = []\<rparr>"

text \<open>
  The moves of the scheduler and of the environment.
  \<^item> \<open>Signal sg\<close>: the operating system delivers \<open>sg\<close>; the runtime sends it on
    \<^verbatim>\<open>quit\<close> without blocking and drops it when the buffer is full.
  \<^item> \<open>Tick d\<close>: \<open>d\<close> nanoseconds pass.
  \<^item> \<open>HttpsProbe\<close>: \<^verbatim>\<open>startHTTPSServer\<close> runs lines 118 to 129.
  \<^item> \<open>ListenReturns i e\<close>: the serve call of server \<open>i\<close> returns \<open>e\<close>.
  \<^item> \<open>SendBuffered i\<close>: the task of \<open>i\<close> completes \<^verbatim>\<open>errChan <- e\<close> into the buffer.
  \<^item> \<open>SelectQuit\<close>: the \<^verbatim>\<open>select\<close> takes \<^verbatim>\<open>case <-quit\<close>.
  \<^item> \<open>SelectErrBuffered\<close>: the \<^verbatim>\<open>select\<close> takes \<^verbatim>\<open>case err := <-errChan\<close>
    with a buffered value.
  \<^item> \<open>SelectErr i\<close>: the \<^verbatim>\<open>select\<close> takes \<^verbatim>\<open>case err := <-errChan\<close> from the
    task of \<open>i\<close>, which is waiting at its send.
  \<^item> \<open>ShutdownReturns r\<close>: the \<^verbatim>\<open>Shutdown\<close> call \<^verbatim>\<open>main\<close> is in returns \<open>r\<close>.
\<close>

datatype action =
    Signal os_signal
  | Tick nat
  | HttpsProbe
  | ListenReturns server srv_error
  | SendBuffered server
  | SelectQuit
  | SelectErrBuffered
  | SelectErr server
  | ShutdownReturns shutdown_result

definition exited :: "state \<Rightarrow> bool" where
  "exited s = (case pc s of Exited n \<Rightarrow> True | _ \<Rightarrow> False)"

definition log_events :: "state \<Rightarrow> event list \<Rightarrow> state" where
  "log_events s evs = s\<lparr>trace := trace s @ evs\<rparr>"

definition set_task :: "state \<Rightarrow> server \<Rightarrow> task \<Rightarrow> state" where
  "set_task s i t = s\<lparr>tasks := (tasks s)(i := t)\<rparr>"

text \<open>
  \<^verbatim>\<open>main\<close> calls \<^verbatim>\<open>i.Shutdown(ctx)\<close>: the server is marked as shutting down and
  \<^verbatim>\<open>main\<close> waits for the call to return.
\<close>

definition call_Shutdown :: "state \<Rightarrow> server \<Rightarrow> go_context \<Rightarrow> state" where
  "call_Shutdown s i ctx =
     log_events (s\<lparr>pc := InShutdown i ctx, inShutdown := (inShutdown s)(i := True)\<rparr>)
       [EvStopCall i ctx]"

text \<open>\<^verbatim>\<open>log.Fatal\<close> and \<^verbatim>\<open>log.Fatalf\<close>: write the line and \<^verbatim>\<open>os.Exit(1)\<close>.\<close>

definition log_Fatal :: "state \<Rightarrow> state" where
  "log_Fatal s = log_events (s\<lparr>pc := Exited 1\<rparr>) [EvFatal]"

text \<open>
  Lines 105 to 110 and the end of \<^verbatim>\<open>main\<close>, once the \<^verbatim>\<open>Shutdown\<close> call on
  server \<open>i\<close> has returned \<open>r\<close>: any error is fatal; after the plaintext server it is
  the TLS server's turn, with the same context; after the TLS server \<^verbatim>\<open>main\<close>
  returns.
\<close>

definition shutdown_returned ::
  "state \<Rightarrow> server \<Rightarrow> go_context \<Rightarrow> shutdown_result \<Rightarrow> state" where
  "shutdown_returned s i ctx r =
     (let s1 = log_events s [EvStopReturn i r] in
      if r \<noteq> ShutdownOk then log_Fatal s1
      else (case i of
              HttpServer \<Rightarrow> call_Shutdown s1 HttpsServer ctx
            | HttpsServer \<Rightarrow> s1\<lparr>pc := Exited 0\<rparr>))"

text \<open>
  One move.  \<open>None\<close> means the move is not possible in this state; nothing moves once
  the process has exited.  A serve call returns \<^verbatim>\<open>ErrServerClosed\<close> only after
  \<^verbatim>\<open>Shutdown\<close> was called on its server, and \<^verbatim>\<open>Shutdown\<close> returns the context's
  error only once the deadline has passed.
\<close>

fun step :: "env \<Rightarrow> action \<Rightarrow> state \<Rightarrow> state option" where
  "step e (Signal sg) s =
     (if exited s then None
      else Some (case try_send (quit s) sg of
                   Some q \<Rightarrow> s\<lparr>quit := q\<rparr>
                 | None \<Rightarrow> s))"
| "step e (Tick d) s =
     (if exited s then None else Some (s\<lparr>now := now s + d\<rparr>))"
| "step e HttpsProbe s =
     (if exited s \<or> tasks s HttpsServer \<noteq> T_Start then None
      else (case startHTTPSServer_probe e of
              (ls, None) \<Rightarrow>
                Some (log_events (set_task s HttpsServer T_Returned) (map EvLog ls))
            | (ls, Some ck) \<Rightarrow>
                Some (log_events (set_task s HttpsServer T_Serving) (map EvLog ls))))"
| "step e (ListenReturns i err) s =
     (if exited s \<or> tasks s i \<noteq> T_Serving \<or> (err = ErrServerClosed \<and> \<not> inShutdown s i)
      then None
      else Some (log_events (set_task s i (T_Sending err)) [EvListenReturn i err]))"
| "step e (SendBuffered i) s =
     (if exited s then None
      else (case tasks s i of
              T_Sending err \<Rightarrow>
                (case try_send (errChan s) err of
                   Some c \<Rightarrow>
                     Some (log_events (set_task (s\<lparr>errChan := c\<rparr>) i T_Done) [EvSend i err])
                 | None \<Rightarrow> None)
            | _ \<Rightarrow> None))"
| "step e SelectQuit s =
     (if pc s \<noteq> AtSelect then None
      else (case try_recv (quit s) of
              None \<Rightarrow> None
            | Some (sg, q) \<Rightarrow>
                let ctx = WithTimeout (now s) (5 * Second) in
                Some (call_Shutdown (log_events (s\<lparr>quit := q\<rparr>) [EvRecvSignal sg])
                        HttpServer ctx)))"
| "step e SelectErrBuffered s =
     (if pc s \<noteq> AtSelect then None
      else (case try_recv (errChan s) of
              None \<Rightarrow> None
            | Some (err, c) \<Rightarrow>
                Some (log_Fatal (log_events (s\<lparr>errChan := c\<rparr>) [EvRecvErr err]))))"
| "step e (SelectErr i) s =
     (if pc s \<noteq> AtSelect \<or> buf (errChan s) \<noteq> [] then None
      else (case tasks s i of
              T_Sending err \<Rightarrow>
                (case try_send (errChan s) err of
                   Some c \<Rightarrow> None
                 | None \<Rightarrow>
                     Some (log_Fatal (log_events (set_task s i T_Done)
                             [EvSend i err, EvRecvErr err])))
            | _ \<Rightarrow> None))"
| "step e (ShutdownReturns r) s =
     (case pc s of
        InShutdown i ctx \<Rightarrow>
          if r = DeadlineExceeded \<and> now s < deadline ctx then None
          else Some (shutdown_returned s i ctx r)
      | _ \<Rightarrow> None)"

text \<open>A run: a sequence of moves, each possible where it is made.\<close>

fun exec :: "env \<Rightarrow> action list \<Rightarrow> state \<Rightarrow> state option" where
  "exec e [] s = Some s"
| "exec e (a # as) s = (case step e a s of None \<Rightarrow> None | Some s' \<Rightarrow> exec e as s')"

text \<open>Projections of the record of a run.\<close>

fun is_stop_event :: "event \<Rightarrow> bool" where
  "is_stop_event (EvStopCall i ctx) = True"
| "is_stop_event (EvStopReturn i r) = True"
| "is_stop_event _ = False"

definition stop_events :: "event list \<Rightarrow> event list" where
  "stop_events tr = filter is_stop_event tr"

fun is_stop_call :: "server \<Rightarrow> event \<Rightarrow> bool" where
  "is_stop_call i (EvStopCall j ctx) = (i = j)"
| "is_stop_call i _ = False"

definition stop_calls :: "server \<Rightarrow> event list \<Rightarrow> nat" where
  "stop_calls i tr = length (filter (is_stop_call i) tr)"

fun is_send :: "event \<Rightarrow> bool" where
  "is_send (EvSend i err) = True"
| "is_send _ = False"

fun is_recv_err :: "event \<Rightarrow> bool" where
  "is_recv_err (EvRecvErr err) = True"
| "is_recv_err _ = False"

fun is_recv_signal :: "event \<Rightarrow> bool" where
  "is_recv_signal (EvRecvSignal sg) = True"
| "is_recv_signal _ = False"

fun is_log :: "event \<Rightarrow> bool" where
  "is_log (EvLog l) = True"
| "is_log _ = False"

section \<open>Phases of the coordinator and invariants of a run\<close>

text \<open>
  The events of a run that \<^verbatim>\<open>main\<close> takes part in: what it receives from its two
  channels (with the send that a receive from \<^verbatim>\<open>errChan\<close> completes) and its
  \<^verbatim>\<open>Shutdown\<close> calls.
\<close>

fun is_coord :: "event \<Rightarrow> bool" where
  "is_coord (EvLog l) = False"
| "is_coord (EvListenReturn i err) = False"
| "is_coord EvFatal = False"
| "is_coord _ = True"

definition coord_events :: "event list \<Rightarrow> event list" where
  "coord_events tr = filter is_coord tr"

text \<open>
  How far \<^verbatim>\<open>main\<close> has come, with what decided it: still at the \<^verbatim>\<open>select\<close>; in the
  plaintext server's or in the TLS server's \<^verbatim>\<open>Shutdown\<close>, after signal \<open>sg\<close> was taken at
  time \<open>t\<close>; or exited, after a listener's error, after a failed stop of the plaintext
  server, or after the stop of the TLS server returned.  Each phase fixes where \<^verbatim>\<open>main\<close>
  is (\<open>pc_of\<close>), the events it has taken part in (\<open>events_of\<close>) and the servers marked
  as shutting down (\<open>shut_of\<close>).
\<close>

datatype phase =
    Running
  | StoppingHttp os_signal nat
  | StoppingHttps os_signal nat
  | FailedListener server srv_error
  | FailedStopHttp os_signal nat shutdown_result
  | StoppedHttps os_signal nat shutdown_result

text \<open>The context of line 103 when the signal was taken at time \<open>t\<close>.\<close>

definition grace :: "nat \<Rightarrow> go_context" where
  "grace t = WithTimeout t (5 * Second)"

fun pc_of :: "phase \<Rightarrow> main_pc" where
  "pc_of Running = AtSelect"
| "pc_of (StoppingHttp sg t) = InShutdown HttpServer (grace t)"
| "pc_of (StoppingHttps sg t) = InShutdown HttpsServer (grace t)"
| "pc_of (FailedListener i err) = Exited 1"
| "pc_of (FailedStopHttp sg t r) = Exited 1"
| "pc_of (StoppedHttps sg t r) = Exited (if r = ShutdownOk then 0 else 1)"

fun events_of :: "phase \<Rightarrow> event list" where
  "events_of Running = []"
| "events_of (StoppingHttp sg t) = [EvRecvSignal sg, EvStopCall HttpServer (grace t)]"
| "events_of (StoppingHttps sg t) =
     [EvRecvSignal sg, EvStopCall HttpServer (grace t), EvStopReturn HttpServer ShutdownOk,
      EvStopCall HttpsServer (grace t)]"
| "events_of (FailedListener i err) = [EvSend i err, EvRecvErr err]"
| "events_of (FailedStopHttp sg t r) =
     [EvRecvSignal sg, EvStopCall HttpServer (grace t), EvStopReturn HttpServer r]"
| "events_of (StoppedHttps sg t r) =
     [EvRecvSignal sg, EvStopCall HttpServer (grace t), EvStopReturn HttpServer ShutdownOk,
      EvStopCall HttpsServer (grace t), EvStopReturn HttpsServer r]"

fun shut_of :: "phase \<Rightarrow> server \<Rightarrow> bool" where
  "shut_of Running i = False"
| "shut_of (StoppingHttp sg t) i = (i = HttpServer)"
| "shut_of (StoppingHttps sg t) i = True"
| "shut_of (FailedListener j err) i = False"
| "shut_of (FailedStopHttp sg t r) i = (i = HttpServer)"
| "shut_of (StoppedHttps sg t r) i = True"

fun phase_ok :: "phase \<Rightarrow> bool" where
  "phase_ok (FailedListener i err) = (err \<noteq> ErrServerClosed)"
| "phase_ok (FailedStopHttp sg t r) = (r \<noteq> ShutdownOk)"
| "phase_ok _ = True"

fun phase_time :: "phase \<Rightarrow> nat" where
  "phase_time (StoppingHttp sg t) = t"
| "phase_time (StoppingHttps sg t) = t"
| "phase_time (FailedStopHttp sg t r) = t"
| "phase_time (StoppedHttps sg t r) = t"
| "phase_time _ = 0"

text \<open>
  A stop call has returned the context's error only when the deadline, five seconds after
  the signal was taken, had passed.
\<close>

fun phase_late :: "phase \<Rightarrow> nat \<Rightarrow> bool" where
  "phase_late (FailedStopHttp sg t r) n = (r = DeadlineExceeded \<longrightarrow> t + 5 * Second \<le> n)"
| "phase_late (StoppedHttps sg t r) n = (r = DeadlineExceeded \<longrightarrow> t + 5 * Second \<le> n)"
| "phase_late _ n = True"

text \<open>A state is in a phase when it shows all that the phase fixes.\<close>

definition in_phase :: "state \<Rightarrow> phase \<Rightarrow> bool" where
  "in_phase s ph =
     (pc s = pc_of ph \<and> coord_events (trace s) = events_of ph \<and>
      (\<forall>i. inShutdown s i = shut_of ph i) \<and> phase_ok ph \<and> phase_time ph \<le> now s \<and>
      phase_late ph (now s))"

text \<open>
  \<^verbatim>\<open>errChan\<close> keeps capacity zero and holds nothing; \<^verbatim>\<open>quit\<close> keeps capacity one.
\<close>

definition chan_inv :: "state \<Rightarrow> bool" where
  "chan_inv s =
     (cap (errChan s) = 0 \<and> buf (errChan s) = [] \<and>
      cap (quit s) = 1 \<and> length (buf (quit s)) \<le> 1)"

text \<open>
  A serve call has returned \<^verbatim>\<open>ErrServerClosed\<close> only for a server marked as shutting down.
\<close>

definition task_inv :: "state \<Rightarrow> bool" where
  "task_inv s =
     (\<forall>i. (tasks s i = T_Sending ErrServerClosed \<longrightarrow> inShutdown s i) \<and>
          (EvListenReturn i ErrServerClosed \<in> set (trace s) \<longrightarrow> inShutdown s i))"

text \<open>
  A task whose serve call has returned is at its send or has completed it, and a task that has
  completed its send has a send recorded.
\<close>

definition send_inv :: "state \<Rightarrow> bool" where
  "send_inv s =
     (\<forall>i. (\<forall>err. EvListenReturn i err \<in> set (trace s) \<longrightarrow>
                 tasks s i = T_Sending err \<or> tasks s i = T_Done) \<and>
          (tasks s i = T_Done \<longrightarrow> (\<exists>err. EvSend i err \<in> set (trace s))))"

definition run_inv :: "state \<Rightarrow> bool" where
  "run_inv s = (chan_inv s \<and> task_inv s \<and> (\<exists>ph. in_phase s ph))"

text \<open>
  What holds of the TLS task throughout a run whose probe finds a file missing.
\<close>

definition tls_off_inv :: "env \<Rightarrow> state \<Rightarrow> bool" where
  "tls_off_inv e s =
     ((tasks s HttpsServer = T_Start \<or> tasks s HttpsServer = T_Returned) \<and>
      (\<forall>err. EvSend HttpsServer err \<notin> set (trace s)) \<and>
      (\<forall>err. EvListenReturn HttpsServer err \<notin> set (trace s)) \<and>
      (\<forall>a. EvLog (LogHttpsStarting a) \<notin> set (trace s)) \<and>
      (tasks s HttpsServer = T_Returned \<longrightarrow>
         EvLog (LogNoMaterial (certDir e)) \<in> set (trace s)))"

section \<open>Concrete environments and runs\<close>

text \<open>
  Three certificate directories: \<^verbatim>\<open>/certs/\<close> holding both files; \<^verbatim>\<open>/certs\<close>, written
  without the trailing separator, holding both files; and \<^verbatim>\<open>/certs\<close> holding neither,
  beside two files \<^verbatim>\<open>/certscert.pem\<close> and \<^verbatim>\<open>/certskey.pem\<close>.  Four runs: a clean
  shutdown on SIGINT; a runtime failure of the plaintext listener; a startup failure of the
  plaintext listener; a shutdown on SIGTERM whose first stop call runs into the deadline.
  Further runs: up to a signal that is pending seven nanoseconds after the start, with the
  states at the \<^verbatim>\<open>select\<close>, in the first and in the second stop call; a runtime failure
  of the plaintext listener followed by a signal that the \<^verbatim>\<open>select\<close> takes; a shutdown
  whose first stop call returns without error one nanosecond after the deadline; and a
  shutdown on a signal taken at time seven whose first stop call runs into the deadline.
\<close>

definition task_of :: "server \<Rightarrow> state \<Rightarrow> task" where
  "task_of i s = tasks s i"

definition env_tls :: env where
  "env_tls = \<lparr>certDir = ''/certs/'', httpsAddr = '':8443'',
              files = {''/certs/cert.pem'', ''/certs/key.pem''}\<rparr>"

definition env_noslash :: env where
  "env_noslash = \<lparr>certDir = ''/certs'', httpsAddr = '':8443'',
                  files = {''/certs/cert.pem'', ''/certs/key.pem''}\<rparr>"

definition env_stray :: env where
  "env_stray = \<lparr>certDir = ''/certs'', httpsAddr = '':8443'',
                files = {''/certscert.pem'', ''/certskey.pem''}\<rparr>"

definition run_clean :: "action list" where
  "run_clean = [HttpsProbe, Signal SIGINT, SelectQuit, ListenReturns HttpServer ErrServerClosed,
                ShutdownReturns ShutdownOk, ShutdownReturns ShutdownOk]"

definition run_listener_failure :: "action list" where
  "run_listener_failure = [HttpsProbe, ListenReturns HttpServer RuntimeError, SelectErr HttpServer]"


definition run_stop_timeout :: "action list" where
  "run_stop_timeout = [HttpsProbe, Signal SIGTERM, SelectQuit, Tick (5 * Second),
                       ShutdownReturns DeadlineExceeded]"



definition run_failure_then_signal :: "action list" where
  "run_failure_then_signal =
     [ListenReturns HttpServer RuntimeError, Signal SIGINT, SelectQuit,
      ShutdownReturns ShutdownOk, ShutdownReturns ShutdownOk]"

definition run_late_stop :: "action list" where
  "run_late_stop =
     [Signal SIGINT, SelectQuit, Tick 5000000001,
      ShutdownReturns ShutdownOk, ShutdownReturns ShutdownOk]"

definition run_late_timeout :: "action list" where
  "run_late_timeout =
     [Tick 7, Signal SIGTERM, SelectQuit, Tick (5 * Second), ShutdownReturns DeadlineExceeded]"




section \<open>Basic facts\<close>

lemma coord_events_append [simp]: "coord_events (xs @ ys) = coord_events xs @ coord_events ys"
  by (simp add: coord_events_def)

lemma coord_events_logs [simp]: "coord_events (map EvLog ls) = []"
  by (induction ls) (simp_all add: coord_events_def)

lemma coord_events_Nil [simp]: "coord_events [] = []"
  by (simp add: coord_events_def)

lemma coord_events_Cons [simp]:
  "coord_events (x # xs) = (if is_coord x then x # coord_events xs else coord_events xs)"
  by (simp add: coord_events_def)

lemma step_Signal:
  assumes "step e (Signal sg) s = Some s'"
  shows "s' = s\<lparr>quit := (case try_send (quit s) sg of Some q \<Rightarrow> q | None \<Rightarrow> quit s)\<rparr>"
proof (cases "try_send (quit s) sg")
  case None
  with assms show ?thesis by (simp split: if_splits)
next
  case (Some q)
  with assms show ?thesis by (simp split: if_splits)
qed

lemma step_Tick:
  assumes "step e (Tick d) s = Some s'"
  shows "s' = s\<lparr>now := now s + d\<rparr>"
  using assms by (simp split: if_splits)

lemma step_HttpsProbe:
  assumes "step e HttpsProbe s = Some s'"
  shows "tasks s HttpsServer = T_Start"
    and "s' = log_events (set_task s HttpsServer
                 (case snd (startHTTPSServer_probe e) of None \<Rightarrow> T_Returned
                  | Some ck \<Rightarrow> T_Serving))
               (map EvLog (fst (startHTTPSServer_probe e)))"
proof -
  obtain ls r where p: "startHTTPSServer_probe e = (ls, r)"
    by (cases "startHTTPSServer_probe e")
  from assms show "tasks s HttpsServer = T_Start"
    by (simp split: if_splits)
  from assms p show "s' = log_events (set_task s HttpsServer
                 (case snd (startHTTPSServer_probe e) of None \<Rightarrow> T_Returned
                  | Some ck \<Rightarrow> T_Serving))
               (map EvLog (fst (startHTTPSServer_probe e)))"
    by (cases r) (simp_all split: if_splits)
qed

lemma step_ListenReturns:
  assumes "step e (ListenReturns i err) s = Some s'"
  shows "tasks s i = T_Serving"
    and "err = ErrServerClosed \<Longrightarrow> inShutdown s i"
    and "s' = log_events (set_task s i (T_Sending err)) [EvListenReturn i err]"
  using assms by (simp_all split: if_splits)

lemma step_SendBuffered:
  assumes "step e (SendBuffered i) s = Some s'"
  shows "length (buf (errChan s)) < cap (errChan s)"
proof (cases "tasks s i")
  case (T_Sending err)
  with assms show ?thesis
    by (cases "try_send (errChan s) err") (simp_all add: try_send_def split: if_splits)
qed (use assms in \<open>simp_all split: if_splits\<close>)

lemma step_SelectQuit:
  assumes "step e SelectQuit s = Some s'"
  shows "pc s = AtSelect \<and>
         (\<exists>sg vs. buf (quit s) = sg # vs \<and>
            s' = call_Shutdown (log_events (s\<lparr>quit := (quit s)\<lparr>buf := vs\<rparr>\<rparr>) [EvRecvSignal sg])
                   HttpServer (WithTimeout (now s) (5 * Second)))"
proof (cases "buf (quit s)")
  case Nil
  with assms show ?thesis by (simp add: try_recv_def split: if_splits)
next
  case (Cons sg vs)
  with assms show ?thesis by (simp add: try_recv_def Let_def split: if_splits)
qed

lemma step_SelectErrBuffered:
  assumes "step e SelectErrBuffered s = Some s'"
  shows "buf (errChan s) \<noteq> []"
  using assms by (cases "buf (errChan s)") (simp_all add: try_recv_def split: if_splits)

lemma step_SelectErr:
  assumes "step e (SelectErr i) s = Some s'"
  shows "pc s = AtSelect \<and>
         (\<exists>err. tasks s i = T_Sending err \<and>
            s' = log_Fatal (log_events (set_task s i T_Done) [EvSend i err, EvRecvErr err]))"
proof (cases "tasks s i")
  case (T_Sending err)
  with assms show ?thesis
    by (cases "try_send (errChan s) err") (simp_all split: if_splits)
qed (use assms in \<open>simp_all split: if_splits\<close>)

lemma step_ShutdownReturns:
  assumes "step e (ShutdownReturns r) s = Some s'"
  shows "\<exists>i ctx. pc s = InShutdown i ctx \<and> (r = DeadlineExceeded \<longrightarrow> deadline ctx \<le> now s) \<and>
           s' = shutdown_returned s i ctx r"
proof (cases "pc s")
  case (InShutdown i ctx)
  with assms show ?thesis by (simp split: if_splits) force
qed (use assms in simp_all)

lemmas upd_defs = log_events_def set_task_def call_Shutdown_def log_Fatal_def
  shutdown_returned_def

lemma shutdown_returned_frame [simp]:
  "errChan (shutdown_returned s i ctx r) = errChan s"
  "quit (shutdown_returned s i ctx r) = quit s"
  "tasks (shutdown_returned s i ctx r) = tasks s"
  "now (shutdown_returned s i ctx r) = now s"
  by (cases i; simp add: upd_defs Let_def)+

lemma shutdown_returned_inShutdown:
  "inShutdown (shutdown_returned s i ctx r) j =
     (inShutdown s j \<or> (r = ShutdownOk \<and> i = HttpServer \<and> j = HttpsServer))"
  by (cases i; simp add: upd_defs Let_def)

lemma shutdown_returned_trace:
  "trace (shutdown_returned s i ctx r) =
     trace s @ EvStopReturn i r #
       (if r \<noteq> ShutdownOk then [EvFatal]
        else if i = HttpServer then [EvStopCall HttpsServer ctx] else [])"
  by (cases i; simp add: upd_defs Let_def)

lemma shutdown_returned_listen:
  "EvListenReturn j err \<in> set (trace (shutdown_returned s i ctx r)) \<longleftrightarrow>
     EvListenReturn j err \<in> set (trace s)"
  by (simp add: shutdown_returned_trace)

lemma shutdown_returned_pc:
  "pc (shutdown_returned s i ctx r) =
     (if r \<noteq> ShutdownOk then Exited 1
      else if i = HttpServer then InShutdown HttpsServer ctx else Exited 0)"
  by (cases i; simp add: upd_defs Let_def)

lemma chan_inv_init: "chan_inv init"
  by (simp add: chan_inv_def init_def make_chan_def)

lemma in_phase_init: "in_phase init Running"
  by (simp add: in_phase_def init_def)

lemma task_inv_init: "task_inv init"
  by (auto simp: task_inv_def init_def split: server.splits)

lemma chan_inv_step:
  assumes "chan_inv s" "step e a s = Some s'"
  shows "chan_inv s'"
proof (cases a)
  case (Signal sg)
  note st = assms(2)[unfolded Signal]
  from assms(1) step_Signal[OF st] show ?thesis
    by (simp add: chan_inv_def try_send_def)
next
  case (Tick d)
  note st = assms(2)[unfolded Tick]
  from assms(1) step_Tick[OF st] show ?thesis
    by (simp add: chan_inv_def)
next
  case HttpsProbe
  note st = assms(2)[unfolded HttpsProbe]
  from assms(1) step_HttpsProbe(2)[OF st] show ?thesis
    by (simp add: chan_inv_def upd_defs)
next
  case (ListenReturns i err)
  note st = assms(2)[unfolded ListenReturns]
  from assms(1) step_ListenReturns(3)[OF st] show ?thesis
    by (simp add: chan_inv_def upd_defs)
next
  case (SendBuffered i)
  note st = assms(2)[unfolded SendBuffered]
  from assms(1) step_SendBuffered[OF st] show ?thesis
    by (simp add: chan_inv_def)
next
  case SelectQuit
  note st = assms(2)[unfolded SelectQuit]
  from assms(1) step_SelectQuit[OF st] show ?thesis
    by (auto simp: chan_inv_def upd_defs)
next
  case SelectErrBuffered
  note st = assms(2)[unfolded SelectErrBuffered]
  from assms(1) step_SelectErrBuffered[OF st] show ?thesis
    by (simp add: chan_inv_def)
next
  case (SelectErr i)
  note st = assms(2)[unfolded SelectErr]
  from assms(1) step_SelectErr[OF st] show ?thesis
    by (auto simp: chan_inv_def upd_defs)
next
  case (ShutdownReturns r)
  note st = assms(2)[unfolded ShutdownReturns]
  from assms(1) step_ShutdownReturns[OF st] show ?thesis
    by (auto simp: chan_inv_def)
qed

lemma task_inv_step:
  assumes "task_inv s" "chan_inv s" "step e a s = Some s'"
  shows "task_inv s'"
proof (cases a)
  case (Signal sg)
  note st = assms(3)[unfolded Signal]
  from assms(1,2) step_Signal[OF st] show ?thesis
    by (simp add: task_inv_def)
next
  case (Tick d)
  note st = assms(3)[unfolded Tick]
  from assms(1,2) step_Tick[OF st] show ?thesis
    by (simp add: task_inv_def)
next
  case HttpsProbe
  note st = assms(3)[unfolded HttpsProbe]
  from assms(1,2) step_HttpsProbe[OF st] show ?thesis
    by (auto simp: task_inv_def upd_defs split: option.splits)
next
  case (ListenReturns i err)
  note st = assms(3)[unfolded ListenReturns]
  from assms(1,2) step_ListenReturns[OF st] show ?thesis
    by (auto simp: task_inv_def upd_defs)
next
  case (SendBuffered i)
  note st = assms(3)[unfolded SendBuffered]
  from assms(1,2) step_SendBuffered[OF st] show ?thesis
    by (simp add: chan_inv_def)
next
  case SelectQuit
  note st = assms(3)[unfolded SelectQuit]
  from assms(1,2) step_SelectQuit[OF st] show ?thesis
    by (auto simp: task_inv_def upd_defs)
next
  case SelectErrBuffered
  note st = assms(3)[unfolded SelectErrBuffered]
  from assms(1,2) step_SelectErrBuffered[OF st] show ?thesis
    by (simp add: chan_inv_def)
next
  case (SelectErr i)
  note st = assms(3)[unfolded SelectErr]
  from assms(1,2) step_SelectErr[OF st] show ?thesis
    by (auto simp: task_inv_def upd_defs split: if_splits)
next
  case (ShutdownReturns r)
  note st = assms(3)[unfolded ShutdownReturns]
  from assms(1,2) step_ShutdownReturns[OF st] show ?thesis
    by (auto simp: task_inv_def shutdown_returned_inShutdown shutdown_returned_listen)
qed

lemma server_two: "i = HttpServer \<or> i = HttpsServer"
  by (cases i) simp_all

lemma pc_of_AtSelect: "pc_of ph = AtSelect \<Longrightarrow> ph = Running"
  by (cases ph) auto

lemma pc_of_InShutdown:
  "pc_of ph = InShutdown i ctx \<Longrightarrow>
     (\<exists>sg t. ctx = grace t \<and> (i = HttpServer \<and> ph = StoppingHttp sg t \<or>
                               i = HttpsServer \<and> ph = StoppingHttps sg t))"
  by (cases ph) auto

lemma in_phase_step:
  assumes "in_phase s ph" "chan_inv s" "task_inv s" "step e a s = Some s'"
  shows "\<exists>ph'. in_phase s' ph'"
proof (cases a)
  case (Signal sg)
  note st = assms(4)[unfolded Signal]
  from assms(1) step_Signal[OF st] have "in_phase s' ph"
    by (simp add: in_phase_def)
  then show ?thesis ..
next
  case (Tick d)
  note st = assms(4)[unfolded Tick]
  have "phase_late ph (n + d)" if "phase_late ph n" for n
    using that by (cases ph) auto
  with assms(1) step_Tick[OF st] have "in_phase s' ph"
    by (simp add: in_phase_def)
  then show ?thesis ..
next
  case HttpsProbe
  note st = assms(4)[unfolded HttpsProbe]
  from assms(1) step_HttpsProbe(2)[OF st] have "in_phase s' ph"
    by (simp add: in_phase_def upd_defs)
  then show ?thesis ..
next
  case (ListenReturns i err)
  note st = assms(4)[unfolded ListenReturns]
  from assms(1) step_ListenReturns(3)[OF st] have "in_phase s' ph"
    by (simp add: in_phase_def upd_defs)
  then show ?thesis ..
next
  case (SendBuffered i)
  note st = assms(4)[unfolded SendBuffered]
  from assms(2) step_SendBuffered[OF st] have False
    by (simp add: chan_inv_def)
  then show ?thesis ..
next
  case SelectQuit
  note st = assms(4)[unfolded SelectQuit]
  from step_SelectQuit[OF st] obtain sg vs where
    pc: "pc s = AtSelect" and
    s': "s' = call_Shutdown (log_events (s\<lparr>quit := (quit s)\<lparr>buf := vs\<rparr>\<rparr>) [EvRecvSignal sg])
                HttpServer (grace (now s))"
    unfolding grace_def by blast
  from pc assms(1) have ph: "ph = Running"
    by (auto simp: in_phase_def dest: pc_of_AtSelect[OF sym])
  from assms(1) ph have "in_phase s' (StoppingHttp sg (now s))"
    unfolding s' by (simp add: in_phase_def upd_defs)
  then show ?thesis ..
next
  case SelectErrBuffered
  note st = assms(4)[unfolded SelectErrBuffered]
  from assms(2) step_SelectErrBuffered[OF st] have False
    by (simp add: chan_inv_def)
  then show ?thesis ..
next
  case (SelectErr i)
  note st = assms(4)[unfolded SelectErr]
  from step_SelectErr[OF st] obtain err where
    pc: "pc s = AtSelect" and
    t: "tasks s i = T_Sending err" and
    s': "s' = log_Fatal (log_events (set_task s i T_Done) [EvSend i err, EvRecvErr err])"
    by blast
  from pc assms(1) have ph: "ph = Running"
    by (auto simp: in_phase_def dest: pc_of_AtSelect[OF sym])
  from assms(1) ph have "\<not> inShutdown s i"
    by (simp add: in_phase_def)
  with t assms(3) have "err \<noteq> ErrServerClosed"
    by (auto simp: task_inv_def)
  with assms(1) ph have "in_phase s' (FailedListener i err)"
    unfolding s' by (simp add: in_phase_def upd_defs)
  then show ?thesis ..
next
  case (ShutdownReturns r)
  note st = assms(4)[unfolded ShutdownReturns]
  from step_ShutdownReturns[OF st] obtain i ctx where
    pc: "pc s = InShutdown i ctx" and
    late: "r = DeadlineExceeded \<longrightarrow> deadline ctx \<le> now s" and
    s': "s' = shutdown_returned s i ctx r"
    by blast
  have dl: "deadline (grace t) = t + 5 * Second" for t
    by (simp add: grace_def WithTimeout_def)
  from pc assms(1) obtain sg t where ctx: "ctx = grace t" and
    ph: "i = HttpServer \<and> ph = StoppingHttp sg t \<or> i = HttpsServer \<and> ph = StoppingHttps sg t"
    using pc_of_InShutdown[of ph i ctx] by (auto simp: in_phase_def)
  from ph show ?thesis
  proof
    assume h: "i = HttpServer \<and> ph = StoppingHttp sg t"
    show ?thesis
    proof (cases "r = ShutdownOk")
      case True
      with assms(1) h ctx have "in_phase s' (StoppingHttps sg t)"
        unfolding s'
        by (simp add: in_phase_def shutdown_returned_pc shutdown_returned_trace
            shutdown_returned_inShutdown server_two)
      then show ?thesis ..
    next
      case False
      with assms(1) h ctx late dl have "in_phase s' (FailedStopHttp sg t r)"
        unfolding s'
        by (simp add: in_phase_def shutdown_returned_pc shutdown_returned_trace
            shutdown_returned_inShutdown server_two)
      then show ?thesis ..
    qed
  next
    assume h: "i = HttpsServer \<and> ph = StoppingHttps sg t"
    with assms(1) ctx late dl have "in_phase s' (StoppedHttps sg t r)"
      unfolding s'
      by (simp add: in_phase_def shutdown_returned_pc shutdown_returned_trace
          shutdown_returned_inShutdown server_two)
    then show ?thesis ..
  qed
qed

lemma run_inv_init: "run_inv init"
  unfolding run_inv_def using chan_inv_init task_inv_init in_phase_init by blast

lemma run_inv_step: "run_inv s \<Longrightarrow> step e a s = Some s' \<Longrightarrow> run_inv s'"
  unfolding run_inv_def using chan_inv_step task_inv_step in_phase_step by blast

lemma run_inv_exec: "run_inv s \<Longrightarrow> exec e acts s = Some s' \<Longrightarrow> run_inv s'"
proof (induction acts arbitrary: s)
  case Nil
  then show ?case by simp
next
  case (Cons a acts)
  from Cons.prems(2) obtain s1 where
    a: "step e a s = Some s1" and r: "exec e acts s1 = Some s'"
    by (auto split: option.splits)
  from Cons.prems(1) a have "run_inv s1" by (rule run_inv_step)
  then show ?case using r by (rule Cons.IH)
qed

lemma reachable_inv: "exec e acts init = Some s \<Longrightarrow> run_inv s"
  using run_inv_init by (rule run_inv_exec)

lemma coord_mem: "is_coord x \<Longrightarrow> x \<in> set (coord_events tr) \<longleftrightarrow> x \<in> set tr"
  by (simp add: coord_events_def)

lemma stop_events_coord: "stop_events (coord_events tr) = stop_events tr"
proof -
  have "\<And>x. is_stop_event x \<Longrightarrow> is_coord x"
    by (case_tac x) simp_all
  then have "\<And>x. (is_coord x \<and> is_stop_event x) = is_stop_event x"
    by blast
  then show ?thesis
    by (simp add: stop_events_def coord_events_def)
qed

lemma stop_calls_coord: "stop_calls i (coord_events tr) = stop_calls i tr"
proof -
  have "\<And>x. is_stop_call i x \<Longrightarrow> is_coord x"
    by (case_tac x) simp_all
  then have "\<And>x. (is_coord x \<and> is_stop_call i x) = is_stop_call i x"
    by blast
  then show ?thesis
    by (simp add: stop_calls_def coord_events_def)
qed

text \<open>What a run has recorded, read off the phase it is in.\<close>

lemma phase_send: "in_phase s ph \<Longrightarrow> EvSend i err \<in> set (trace s) \<longleftrightarrow> EvSend i err \<in> set (events_of ph)"
  using coord_mem[of "EvSend i err" "trace s"] by (simp add: in_phase_def)

lemma phase_recv_err:
  "in_phase s ph \<Longrightarrow> EvRecvErr err \<in> set (trace s) \<longleftrightarrow> EvRecvErr err \<in> set (events_of ph)"
  using coord_mem[of "EvRecvErr err" "trace s"] by (simp add: in_phase_def)

lemma phase_recv_signal:
  "in_phase s ph \<Longrightarrow> EvRecvSignal sg \<in> set (trace s) \<longleftrightarrow> EvRecvSignal sg \<in> set (events_of ph)"
  using coord_mem[of "EvRecvSignal sg" "trace s"] by (simp add: in_phase_def)

lemma phase_stop_call:
  "in_phase s ph \<Longrightarrow>
     EvStopCall i ctx \<in> set (trace s) \<longleftrightarrow> EvStopCall i ctx \<in> set (events_of ph)"
  using coord_mem[of "EvStopCall i ctx" "trace s"] by (simp add: in_phase_def)

lemma phase_stop_return:
  "in_phase s ph \<Longrightarrow>
     EvStopReturn i r \<in> set (trace s) \<longleftrightarrow> EvStopReturn i r \<in> set (events_of ph)"
  using coord_mem[of "EvStopReturn i r" "trace s"] by (simp add: in_phase_def)

lemma phase_stop_events: "in_phase s ph \<Longrightarrow> stop_events (trace s) = stop_events (events_of ph)"
  using stop_events_coord[of "trace s"] by (simp add: in_phase_def)

lemma phase_stop_calls: "in_phase s ph \<Longrightarrow> stop_calls i (trace s) = stop_calls i (events_of ph)"
  using stop_calls_coord[of i "trace s"] by (simp add: in_phase_def)

lemmas phase_reads = phase_send phase_recv_err phase_recv_signal phase_stop_call
  phase_stop_return phase_stop_events phase_stop_calls

lemma reachable_phase:
  assumes "exec e acts init = Some s"
  obtains ph where "in_phase s ph" "chan_inv s" "task_inv s"
  using reachable_inv[OF assms] unfolding run_inv_def by blast

subsection \<open>Evaluating the probe and concrete runs\<close>

lemmas path_defs = startHTTPSServer_probe_def spec_tls_material_present_def filepath_Join_def
  filepath_Clean_def os_Stat_def Let_def

lemmas eval_defs = init_def exited_def upd_defs make_chan_def try_send_def try_recv_def Let_def
  WithTimeout_def Second_def task_of_def stop_calls_def stop_events_def

lemma probe_env_tls:
  "startHTTPSServer_probe env_tls =
     ([LogHttpsStarting '':8443''], Some (''/certs/cert.pem'', ''/certs/key.pem''))"
  by (simp add: env_tls_def path_defs)

lemma exec_run_clean:
  "map_option trace (exec env_tls run_clean init) =
     Some [EvLog (LogHttpsStarting '':8443''), EvRecvSignal SIGINT,
           EvStopCall HttpServer \<lparr>deadline = 5000000000\<rparr>,
           EvListenReturn HttpServer ErrServerClosed,
           EvStopReturn HttpServer ShutdownOk,
           EvStopCall HttpsServer \<lparr>deadline = 5000000000\<rparr>,
           EvStopReturn HttpsServer ShutdownOk]"
  "map_option pc (exec env_tls run_clean init) = Some (Exited 0)"
  by (simp_all add: run_clean_def probe_env_tls eval_defs)

lemma exec_run_clean_Some: "exec env_tls run_clean init = Some (the (exec env_tls run_clean init))"
  using exec_run_clean(2) by (cases "exec env_tls run_clean init") simp_all

lemma probe_env_noslash:
  "startHTTPSServer_probe env_noslash = ([LogNoMaterial ''/certs''], None)"
  by (simp add: env_noslash_def path_defs)

lemma probe_env_stray:
  "startHTTPSServer_probe env_stray =
     ([LogHttpsStarting '':8443''], Some (''/certscert.pem'', ''/certskey.pem''))"
  by (simp add: env_stray_def path_defs)

lemma map_option_the: "map_option f x = Some y \<Longrightarrow> f (the x) = y"
  by (cases x) auto

lemma map_option_Some_the: "map_option f x = Some y \<Longrightarrow> x = Some (the x)"
  by (cases x) auto

lemma exec_run_listener_failure:
  "map_option trace (exec env_tls run_listener_failure init) =
     Some [EvLog (LogHttpsStarting '':8443''), EvListenReturn HttpServer RuntimeError,
           EvSend HttpServer RuntimeError, EvRecvErr RuntimeError, EvFatal]"
  by (simp add: run_listener_failure_def probe_env_tls eval_defs)

lemma exec_run_stop_timeout:
  "map_option trace (exec env_tls run_stop_timeout init) =
     Some [EvLog (LogHttpsStarting '':8443''), EvRecvSignal SIGTERM,
           EvStopCall HttpServer \<lparr>deadline = 5000000000\<rparr>,
           EvStopReturn HttpServer DeadlineExceeded, EvFatal]"
  by (simp add: run_stop_timeout_def probe_env_tls eval_defs)

lemma exec_listen_failure:
  "map_option pc (exec env_tls [ListenReturns HttpServer RuntimeError] init) = Some AtSelect"
  "map_option (task_of HttpServer) (exec env_tls [ListenReturns HttpServer RuntimeError] init) =
     Some (T_Sending RuntimeError)"
  by (simp_all add: eval_defs)

subsection \<open>The probe on directories written with a trailing separator\<close>

lemma split_sep_not_Nil: "split_sep c xs \<noteq> []"
  by (induction xs) (auto split: list.splits)

lemma split_sep_append: "split_sep c (xs @ c # ys) = split_sep c xs @ split_sep c ys"
proof (induction xs)
  case Nil
  show ?case by simp
next
  case (Cons x xs)
  show ?case
  proof (cases "split_sep c xs")
    case Nil
    then show ?thesis using split_sep_not_Nil[of c xs] by simp
  next
    case (Cons w ws)
    with Cons.IH show ?thesis by simp
  qed
qed

lemma clean_elems_skip_empty:
  "clean_elems rooted out (xs @ [] # ys) = clean_elems rooted out (xs @ ys)"
  by (induction xs arbitrary: out) auto

lemma filepath_Clean_double_sep:
  "filepath_Clean (d @ ''/'' @ ''/'' @ n) = filepath_Clean (d @ ''/'' @ n)"
proof -
  have r: "(case d @ ''/'' @ ''/'' @ n of [] \<Rightarrow> False | x # _ \<Rightarrow> x = CHR ''/'') =
           (case d @ ''/'' @ n of [] \<Rightarrow> False | x # _ \<Rightarrow> x = CHR ''/'')"
    by (cases d) simp_all
  have "split_sep (CHR ''/'') (d @ ''/'' @ ''/'' @ n) =
          split_sep (CHR ''/'') d @ [] # split_sep (CHR ''/'') n"
    using split_sep_append[of "CHR ''/''" d "CHR ''/'' # n"] by simp
  moreover have "split_sep (CHR ''/'') (d @ ''/'' @ n) =
          split_sep (CHR ''/'') d @ split_sep (CHR ''/'') n"
    using split_sep_append[of "CHR ''/''" d n] by simp
  ultimately have "clean_elems b [] (split_sep (CHR ''/'') (d @ ''/'' @ ''/'' @ n)) =
      clean_elems b [] (split_sep (CHR ''/'') (d @ ''/'' @ n))" for b
    by (simp add: clean_elems_skip_empty)
  with r show ?thesis
    unfolding filepath_Clean_def by (simp only:)
qed

lemma filepath_Join_trailing_sep:
  "filepath_Join [d @ ''/'', n] = filepath_Join [d @ ''/'' @ n]"
  using filepath_Clean_double_sep[of d n] by (simp add: filepath_Join_def)

lemma probe_agrees_with_trailing_sep:
  assumes "certDir e = d @ ''/''"
  shows "(snd (startHTTPSServer_probe e) \<noteq> None) = spec_tls_material_present e"
  using filepath_Join_trailing_sep[of d "''cert.pem''"]
    filepath_Join_trailing_sep[of d "''key.pem''"] assms
  by (simp add: startHTTPSServer_probe_def spec_tls_material_present_def Let_def)

lemma probe_None_logs:
  "snd (startHTTPSServer_probe e) = None \<Longrightarrow>
     fst (startHTTPSServer_probe e) = [LogNoMaterial (certDir e)]"
  by (simp add: startHTTPSServer_probe_def Let_def split: if_splits)

subsection \<open>Runs whose probe fails\<close>

lemma shutdown_returned_mem:
  "\<not> is_stop_event x \<Longrightarrow> x \<noteq> EvFatal \<Longrightarrow>
     x \<in> set (trace (shutdown_returned s i ctx r)) \<longleftrightarrow> x \<in> set (trace s)"
  by (auto simp: shutdown_returned_trace split: if_splits)

lemma tls_off_inv_init: "tls_off_inv e init"
  by (simp add: tls_off_inv_def init_def)

lemma tls_off_inv_step:
  assumes "tls_off_inv e s" "chan_inv s" "snd (startHTTPSServer_probe e) = None"
    "step e a s = Some s'"
  shows "tls_off_inv e s'"
proof (cases a)
  case (Signal sg)
  note st = assms(4)[unfolded Signal]
  from assms(1) step_Signal[OF st] show ?thesis
    by (simp add: tls_off_inv_def)
next
  case (Tick d)
  note st = assms(4)[unfolded Tick]
  from assms(1) step_Tick[OF st] show ?thesis
    by (simp add: tls_off_inv_def)
next
  case HttpsProbe
  note st = assms(4)[unfolded HttpsProbe]
  from assms(1,3) step_HttpsProbe(2)[OF st] probe_None_logs[OF assms(3)] show ?thesis
    by (simp add: tls_off_inv_def upd_defs)
next
  case (ListenReturns i err)
  note st = assms(4)[unfolded ListenReturns]
  from assms(1) step_ListenReturns(1,3)[OF st] show ?thesis
    by (auto simp: tls_off_inv_def upd_defs)
next
  case (SendBuffered i)
  note st = assms(4)[unfolded SendBuffered]
  from assms(2) step_SendBuffered[OF st] show ?thesis
    by (simp add: chan_inv_def)
next
  case SelectQuit
  note st = assms(4)[unfolded SelectQuit]
  from assms(1) step_SelectQuit[OF st] show ?thesis
    by (auto simp: tls_off_inv_def upd_defs)
next
  case SelectErrBuffered
  note st = assms(4)[unfolded SelectErrBuffered]
  from assms(2) step_SelectErrBuffered[OF st] show ?thesis
    by (simp add: chan_inv_def)
next
  case (SelectErr i)
  note st = assms(4)[unfolded SelectErr]
  from assms(1) step_SelectErr[OF st] show ?thesis
    by (cases i) (auto simp: tls_off_inv_def upd_defs)
next
  case (ShutdownReturns r)
  note st = assms(4)[unfolded ShutdownReturns]
  from assms(1) step_ShutdownReturns[OF st] show ?thesis
    by (auto simp: tls_off_inv_def shutdown_returned_mem)
qed

lemma tls_off_inv_exec:
  assumes "snd (startHTTPSServer_probe e) = None"
  shows "run_inv s \<Longrightarrow> tls_off_inv e s \<Longrightarrow> exec e acts s = Some s' \<Longrightarrow> tls_off_inv e s'"
proof (induction acts arbitrary: s)
  case Nil
  then show ?case by simp
next
  case (Cons a acts)
  from Cons.prems(3) obtain s1 where
    a: "step e a s = Some s1" and r: "exec e acts s1 = Some s'"
    by (auto split: option.splits)
  from Cons.prems(1) have c: "chan_inv s"
    by (simp add: run_inv_def)
  from Cons.prems(1) a have i1: "run_inv s1"
    by (rule run_inv_step)
  from Cons.prems(2) c assms a have "tls_off_inv e s1"
    by (rule tls_off_inv_step)
  with i1 show ?case using r by (rule Cons.IH)
qed

text \<open>
  When the probe of \<^verbatim>\<open>startHTTPSServer\<close> itself finds a file missing, the run degrades
  to plaintext only: the TLS task returns after the notice, never serves and never sends on
  the funnel, and its probe leaves \<^verbatim>\<open>main\<close> and the plaintext task as they were.
\<close>

lemma failed_probe_degrades_to_plaintext:
  assumes "snd (startHTTPSServer_probe e) = None" and "exec e acts init = Some s"
  shows "tasks s HttpsServer \<noteq> T_Serving \<and>
         (\<forall>err. EvSend HttpsServer err \<notin> set (trace s)) \<and>
         (tasks s HttpsServer = T_Returned \<longrightarrow>
            EvLog (LogNoMaterial (certDir e)) \<in> set (trace s))"
  using tls_off_inv_exec[OF assms(1) run_inv_init tls_off_inv_init assms(2)]
  by (auto simp: tls_off_inv_def)

lemma failed_probe_step_frame:
  assumes "snd (startHTTPSServer_probe e) = None" and "step e HttpsProbe s = Some s'"
  shows "pc s' = pc s \<and> tasks s' HttpServer = tasks s HttpServer \<and>
         tasks s' HttpsServer = T_Returned \<and>
         trace s' = trace s @ [EvLog (LogNoMaterial (certDir e))]"
  using step_HttpsProbe(2)[OF assms(2)] probe_None_logs[OF assms(1)] assms(1)
  by (simp add: upd_defs)

subsection \<open>Tasks at their send\<close>

lemma send_inv_init: "send_inv init"
  by (simp add: send_inv_def init_def split: server.splits)

lemma send_inv_returned:
  "send_inv s \<Longrightarrow> EvListenReturn i err \<in> set (trace s) \<Longrightarrow>
     tasks s i = T_Sending err \<or> tasks s i = T_Done"
  by (simp add: send_inv_def)

lemma send_inv_frame:
  assumes "send_inv s" and "tasks s' = tasks s"
    and "\<And>i err. EvListenReturn i err \<in> set (trace s') \<longleftrightarrow>
                   EvListenReturn i err \<in> set (trace s)"
    and "\<And>i err. EvSend i err \<in> set (trace s) \<Longrightarrow> EvSend i err \<in> set (trace s')"
  shows "send_inv s'"
  unfolding send_inv_def
proof (intro allI conjI impI)
  fix i err
  assume "EvListenReturn i err \<in> set (trace s')"
  with assms(3) have "EvListenReturn i err \<in> set (trace s)"
    by simp
  from send_inv_returned[OF assms(1) this] assms(2)
  show "tasks s' i = T_Sending err \<or> tasks s' i = T_Done"
    by simp
next
  fix i
  assume "tasks s' i = T_Done"
  with assms(2) have "tasks s i = T_Done"
    by simp
  with assms(1) obtain err where "EvSend i err \<in> set (trace s)"
    unfolding send_inv_def by blast
  then have "EvSend i err \<in> set (trace s')"
    by (rule assms(4))
  then show "\<exists>err. EvSend i err \<in> set (trace s')" ..
qed

lemma send_inv_step:
  assumes "send_inv s" "chan_inv s" "step e a s = Some s'"
  shows "send_inv s'"
proof (cases a)
  case (Signal sg)
  note st = assms(3)[unfolded Signal]
  from step_Signal[OF st] show ?thesis
    by (intro send_inv_frame[OF assms(1)]) simp_all
next
  case (Tick d)
  note st = assms(3)[unfolded Tick]
  from step_Tick[OF st] show ?thesis
    by (intro send_inv_frame[OF assms(1)]) simp_all
next
  case HttpsProbe
  note st = assms(3)[unfolded HttpsProbe]
  from step_HttpsProbe(1)[OF st] send_inv_returned[OF assms(1), of HttpsServer]
  have "\<forall>err. EvListenReturn HttpsServer err \<notin> set (trace s)"
    by fastforce
  then have n: "\<And>e. EvListenReturn HttpsServer e \<notin> set (trace s)"
    by blast
  note s' = step_HttpsProbe(2)[OF st]
  note t = step_HttpsProbe(1)[OF st]
  show ?thesis
    unfolding send_inv_def
  proof (intro allI conjI impI)
    fix j e
    assume m: "EvListenReturn j e \<in> set (trace s')"
    then have m': "EvListenReturn j e \<in> set (trace s)"
      by (auto simp: s' upd_defs)
    with n have "j \<noteq> HttpsServer"
      by blast
    with send_inv_returned[OF assms(1) m']
    show "tasks s' j = T_Sending e \<or> tasks s' j = T_Done"
      by (simp add: s' upd_defs)
  next
    fix j
    assume d: "tasks s' j = T_Done"
    then have "tasks s j = T_Done"
      by (cases "j = HttpsServer") (simp_all add: s' upd_defs split: option.splits)
    with assms(1) obtain e where "EvSend j e \<in> set (trace s)"
      unfolding send_inv_def by blast
    then have "EvSend j e \<in> set (trace s')"
      by (simp add: s' upd_defs)
    then show "\<exists>e. EvSend j e \<in> set (trace s')" ..
  qed
next
  case (ListenReturns i err)
  note st = assms(3)[unfolded ListenReturns]
  from step_ListenReturns(1)[OF st] send_inv_returned[OF assms(1), of i]
  have "\<forall>err. EvListenReturn i err \<notin> set (trace s)"
    by fastforce
  then have n: "\<And>e. EvListenReturn i e \<notin> set (trace s)"
    by blast
  note s' = step_ListenReturns(3)[OF st]
  note t = step_ListenReturns(1)[OF st]
  show ?thesis
    unfolding send_inv_def
  proof (intro allI conjI impI)
    fix j e
    assume m: "EvListenReturn j e \<in> set (trace s')"
    show "tasks s' j = T_Sending e \<or> tasks s' j = T_Done"
    proof (cases "j = i")
      case True
      with m n have "e = err"
        by (auto simp: s' upd_defs)
      with True show ?thesis
        by (simp add: s' upd_defs)
    next
      case False
      with m have "EvListenReturn j e \<in> set (trace s)"
        by (auto simp: s' upd_defs)
      from send_inv_returned[OF assms(1) this] False show ?thesis
        by (simp add: s' upd_defs)
    qed
  next
    fix j
    assume d: "tasks s' j = T_Done"
    then have "tasks s j = T_Done"
      by (cases "j = i") (simp_all add: s' upd_defs)
    with assms(1) obtain e where "EvSend j e \<in> set (trace s)"
      unfolding send_inv_def by blast
    then have "EvSend j e \<in> set (trace s')"
      by (simp add: s' upd_defs)
    then show "\<exists>e. EvSend j e \<in> set (trace s')" ..
  qed
next
  case (SendBuffered i)
  note st = assms(3)[unfolded SendBuffered]
  from assms(2) step_SendBuffered[OF st] show ?thesis
    by (simp add: chan_inv_def)
next
  case SelectQuit
  note st = assms(3)[unfolded SelectQuit]
  from step_SelectQuit[OF st] show ?thesis
    by (intro send_inv_frame[OF assms(1)]) (auto simp: upd_defs)
next
  case SelectErrBuffered
  note st = assms(3)[unfolded SelectErrBuffered]
  from assms(2) step_SelectErrBuffered[OF st] show ?thesis
    by (simp add: chan_inv_def)
next
  case (SelectErr i)
  note st = assms(3)[unfolded SelectErr]
  from step_SelectErr[OF st] obtain err where
    s': "s' = log_Fatal (log_events (set_task s i T_Done) [EvSend i err, EvRecvErr err])"
    by blast
  show ?thesis
    unfolding send_inv_def
  proof (intro allI conjI impI)
    fix j e
    assume "EvListenReturn j e \<in> set (trace s')"
    then have "EvListenReturn j e \<in> set (trace s)"
      by (simp add: s' upd_defs)
    from send_inv_returned[OF assms(1) this]
    show "tasks s' j = T_Sending e \<or> tasks s' j = T_Done"
      by (auto simp: s' upd_defs)
  next
    fix j
    assume d: "tasks s' j = T_Done"
    show "\<exists>e. EvSend j e \<in> set (trace s')"
    proof (cases "j = i")
      case True
      then have "EvSend j err \<in> set (trace s')"
        by (simp add: s' upd_defs)
      then show ?thesis ..
    next
      case False
      with d have "tasks s j = T_Done"
        by (simp add: s' upd_defs)
      with assms(1) obtain e where "EvSend j e \<in> set (trace s)"
        unfolding send_inv_def by blast
      then have "EvSend j e \<in> set (trace s')"
        by (simp add: s' upd_defs)
      then show ?thesis ..
    qed
  qed
next
  case (ShutdownReturns r)
  note st = assms(3)[unfolded ShutdownReturns]
  from step_ShutdownReturns[OF st] show ?thesis
    by (intro send_inv_frame[OF assms(1)]) (auto simp: shutdown_returned_mem)
qed

lemma send_inv_exec:
  "run_inv s \<Longrightarrow> send_inv s \<Longrightarrow> exec e acts s = Some s' \<Longrightarrow> send_inv s'"
proof (induction acts arbitrary: s)
  case Nil
  then show ?case by simp
next
  case (Cons a acts)
  from Cons.prems(3) obtain s1 where
    a: "step e a s = Some s1" and r: "exec e acts s1 = Some s'"
    by (auto split: option.splits)
  from Cons.prems(1) have c: "chan_inv s"
    by (simp add: run_inv_def)
  from Cons.prems(1) a have i1: "run_inv s1"
    by (rule run_inv_step)
  from Cons.prems(2) c a have "send_inv s1"
    by (rule send_inv_step)
  with i1 show ?case using r by (rule Cons.IH)
qed

lemma stopped_listener_waits_at_send:
  assumes "exec e acts init = Some s" and "EvListenReturn i ErrServerClosed \<in> set (trace s)"
  shows "tasks s i = T_Sending ErrServerClosed"
proof -
  from assms(1) have si: "send_inv s"
    using send_inv_exec[OF run_inv_init send_inv_init] by blast
  from assms(1) obtain ph where ph: "in_phase s ph" and t: "task_inv s"
    by (rule reachable_phase)
  from assms(2) t have "inShutdown s i"
    by (simp add: task_inv_def)
  with ph have "shut_of ph i"
    by (simp add: in_phase_def)
  then have n: "\<forall>j err. EvSend j err \<notin> set (trace s)"
    using ph by (cases ph) (simp_all add: phase_send)
  from si n have "tasks s i \<noteq> T_Done"
    unfolding send_inv_def by blast
  with send_inv_returned[OF si assms(2)] show ?thesis
    by simp
qed

subsection \<open>Runs through the \<^verbatim>\<open>select\<close> on a signal\<close>

lemma exec_append:
  "exec e (xs @ ys) s = (case exec e xs s of None \<Rightarrow> None | Some s' \<Rightarrow> exec e ys s')"
  by (induction xs arbitrary: s) (simp_all split: option.splits)

lemma step_trace_mono:
  assumes "chan_inv s" "step e a s = Some s'"
  shows "\<exists>evs. trace s' = trace s @ evs"
proof (cases a)
  case (Signal sg)
  note st = assms(2)[unfolded Signal]
  from step_Signal[OF st] show ?thesis by simp
next
  case (Tick d)
  note st = assms(2)[unfolded Tick]
  from step_Tick[OF st] show ?thesis by simp
next
  case HttpsProbe
  note st = assms(2)[unfolded HttpsProbe]
  from step_HttpsProbe(2)[OF st] show ?thesis by (simp add: upd_defs)
next
  case (ListenReturns i err)
  note st = assms(2)[unfolded ListenReturns]
  from step_ListenReturns(3)[OF st] show ?thesis by (simp add: upd_defs)
next
  case (SendBuffered i)
  note st = assms(2)[unfolded SendBuffered]
  from assms(1) step_SendBuffered[OF st] show ?thesis by (simp add: chan_inv_def)
next
  case SelectQuit
  note st = assms(2)[unfolded SelectQuit]
  from step_SelectQuit[OF st] show ?thesis by (auto simp: upd_defs)
next
  case SelectErrBuffered
  note st = assms(2)[unfolded SelectErrBuffered]
  from assms(1) step_SelectErrBuffered[OF st] show ?thesis by (simp add: chan_inv_def)
next
  case (SelectErr i)
  note st = assms(2)[unfolded SelectErr]
  from step_SelectErr[OF st] show ?thesis by (auto simp: upd_defs)
next
  case (ShutdownReturns r)
  note st = assms(2)[unfolded ShutdownReturns]
  from step_ShutdownReturns[OF st] show ?thesis by (auto simp: shutdown_returned_trace)
qed

lemma exec_trace_mono:
  "run_inv s \<Longrightarrow> exec e acts s = Some s' \<Longrightarrow> \<exists>evs. trace s' = trace s @ evs"
proof (induction acts arbitrary: s)
  case Nil
  then show ?case by simp
next
  case (Cons a acts)
  from Cons.prems(2) obtain s1 where
    a: "step e a s = Some s1" and r: "exec e acts s1 = Some s'"
    by (auto split: option.splits)
  from Cons.prems(1) have "chan_inv s"
    by (simp add: run_inv_def)
  from step_trace_mono[OF this a] obtain evs1 where e1: "trace s1 = trace s @ evs1" ..
  from Cons.prems(1) a have "run_inv s1"
    by (rule run_inv_step)
  from Cons.IH[OF this r] obtain evs2 where "trace s' = trace s1 @ evs2" ..
  with e1 have "trace s' = trace s @ (evs1 @ evs2)"
    by simp
  then show ?case ..
qed

lemma grace_inj: "grace t = grace t' \<Longrightarrow> t = t'"
  by (simp add: grace_def WithTimeout_def)


text \<open>
  Once the \<^verbatim>\<open>select\<close> has taken a signal at time \<open>now s0\<close>, every later state is in one of
  the four phases of a shutdown on signal, and the phase carries that time.
\<close>

lemma phase_after_select:
  assumes "exec e acts init = Some s0" and "step e SelectQuit s0 = Some s1"
    and "exec e acts' s1 = Some s" and "in_phase s ph"
  shows "\<exists>sg r. ph = StoppingHttp sg (now s0) \<or> ph = StoppingHttps sg (now s0) \<or>
                ph = FailedStopHttp sg (now s0) r \<or> ph = StoppedHttps sg (now s0) r"
proof -
  from assms(1) have i0: "run_inv s0"
    by (rule reachable_inv)
  then obtain ph0 where ph0: "in_phase s0 ph0"
    unfolding run_inv_def by blast
  from step_SelectQuit[OF assms(2)] obtain sg vs where
    pc0: "pc s0 = AtSelect" and
    s1: "s1 = call_Shutdown (log_events (s0\<lparr>quit := (quit s0)\<lparr>buf := vs\<rparr>\<rparr>) [EvRecvSignal sg])
               HttpServer (grace (now s0))"
    unfolding grace_def by blast
  from pc0 ph0 have "ph0 = Running"
    by (auto simp: in_phase_def dest: pc_of_AtSelect[OF sym])
  with ph0 have "coord_events (trace s0) = []"
    by (simp add: in_phase_def)
  then have c1: "coord_events (trace s1) = [EvRecvSignal sg, EvStopCall HttpServer (grace (now s0))]"
    by (simp add: s1 upd_defs)
  from i0 assms(2) have "run_inv s1"
    by (rule run_inv_step)
  from exec_trace_mono[OF this assms(3)] obtain evs where "trace s = trace s1 @ evs" ..
  with c1 have "coord_events (trace s) =
      EvRecvSignal sg # EvStopCall HttpServer (grace (now s0)) # coord_events evs"
    by simp
  with assms(4) have "events_of ph =
      EvRecvSignal sg # EvStopCall HttpServer (grace (now s0)) # coord_events evs"
    by (simp add: in_phase_def)
  then show ?thesis
    by (cases ph) (auto dest: grace_inj)
qed






lemma exec_run_late_timeout:
  "map_option trace (exec env_tls run_late_timeout init) =
     Some [EvRecvSignal SIGTERM, EvStopCall HttpServer \<lparr>deadline = 5000000007\<rparr>,
           EvStopReturn HttpServer DeadlineExceeded, EvFatal]"
  "map_option pc (exec env_tls run_late_timeout init) = Some (Exited 1)"
  "map_option now (exec env_tls [Tick 7, Signal SIGTERM] init) = Some 7"
  by (simp_all add: run_late_timeout_def eval_defs)

section \<open>The claims\<close>

text \<open>
  Claim C1, as the code has it: when \<^verbatim>\<open>main\<close> receives a listener's error from
  \<^verbatim>\<open>errChan\<close> (line 111), the process exits with status 1 at once (line 112) and no
  \<^verbatim>\<open>Shutdown\<close> call is issued to either server, whatever the other listener is doing.
\<close>

theorem C1_listener_failure_exits_without_stop:
  assumes "exec e acts init = Some s" and "EvRecvErr err \<in> set (trace s)"
  shows "pc s = Exited 1 \<and> stop_calls i (trace s) = 0"
proof -
  from assms(1) obtain ph where ph: "in_phase s ph"
    by (rule reachable_phase)
  from assms(2) ph have "EvRecvErr err \<in> set (events_of ph)"
    by (simp add: phase_recv_err)
  then obtain j err' where f: "ph = FailedListener j err'"
    by (cases ph) simp_all
  from ph f have "pc s = Exited 1"
    by (simp add: in_phase_def)
  moreover from f phase_stop_calls[OF ph, of i] have "stop_calls i (trace s) = 0"
    by (simp add: stop_calls_def)
  ultimately show ?thesis ..
qed

theorem C1_witness:
  "EvRecvErr RuntimeError \<in> set (trace (the (exec env_tls run_listener_failure init))) \<and>
   pc (the (exec env_tls run_listener_failure init)) = Exited 1 \<and>
   stop_calls HttpsServer (trace (the (exec env_tls run_listener_failure init))) = 0"
proof -
  note r = exec_run_listener_failure
  have h: "EvRecvErr RuntimeError \<in> set (trace (the (exec env_tls run_listener_failure init)))"
    by (simp add: map_option_the[OF r])
  from C1_listener_failure_exits_without_stop[OF map_option_Some_the[OF r] h, of HttpsServer] h
  show ?thesis by blast
qed

text \<open>
  Claim C1 as stated asks for a stop call to every started server before the exit.  In the
  run below the TLS listener is serving, the plaintext listener fails at runtime, and the
  process exits with status 1 with no stop call recorded.
\<close>

theorem C1_counterexample:
  "map_option pc (exec env_tls run_listener_failure init) = Some (Exited 1) \<and>
   map_option (task_of HttpsServer) (exec env_tls run_listener_failure init) = Some T_Serving \<and>
   map_option (stop_events \<circ> trace) (exec env_tls run_listener_failure init) = Some []"
  by (simp add: run_listener_failure_def probe_env_tls eval_defs)




text \<open>
  Claim C3: a listener that terminates because \<^verbatim>\<open>Shutdown\<close> was called on it (its serve
  call returns \<^verbatim>\<open>ErrServerClosed\<close>) never puts an event on \<^verbatim>\<open>errChan\<close>: its task stays at
  the send statement, which cannot complete because the channel has no buffer and
  \<^verbatim>\<open>main\<close> has left the \<^verbatim>\<open>select\<close>.  Every send that does complete carries an error
  other than \<^verbatim>\<open>ErrServerClosed\<close>, from a listener that was not stopped cooperatively.
\<close>

theorem C3_cooperative_stop_sends_nothing:
  assumes "exec e acts init = Some s"
  shows "(EvListenReturn i ErrServerClosed \<in> set (trace s) \<longrightarrow>
            tasks s i = T_Sending ErrServerClosed \<and>
            (\<forall>j err. EvSend j err \<notin> set (trace s))) \<and>
         (\<forall>err. EvSend i err \<in> set (trace s) \<longrightarrow>
            err \<noteq> ErrServerClosed \<and> EvListenReturn i ErrServerClosed \<notin> set (trace s))"
proof -
  from assms obtain ph where ph: "in_phase s ph" and t: "task_inv s"
    by (rule reachable_phase)
  have a: "\<forall>j err. EvSend j err \<notin> set (trace s)"
    if "EvListenReturn i ErrServerClosed \<in> set (trace s)"
  proof -
    from that t have "inShutdown s i"
      by (simp add: task_inv_def)
    with ph have "shut_of ph i"
      by (simp add: in_phase_def)
    then show ?thesis
      using ph by (cases ph) (simp_all add: phase_send)
  qed
  have b: "err \<noteq> ErrServerClosed" if "EvSend i err \<in> set (trace s)" for err
  proof -
    from that ph have "EvSend i err \<in> set (events_of ph)"
      by (simp add: phase_send)
    then have "ph = FailedListener i err"
      by (cases ph) simp_all
    with ph show ?thesis
      by (simp add: in_phase_def)
  qed
  note c = stopped_listener_waits_at_send[OF assms]
  from a b c show ?thesis by blast
qed

theorem C3_witness:
  "EvListenReturn HttpServer ErrServerClosed \<in> set (trace (the (exec env_tls run_clean init))) \<and>
   tasks (the (exec env_tls run_clean init)) HttpServer = T_Sending ErrServerClosed \<and>
   (\<forall>j err. EvSend j err \<notin> set (trace (the (exec env_tls run_clean init)))) \<and>
   EvSend HttpServer RuntimeError \<in> set (trace (the (exec env_tls run_listener_failure init))) \<and>
   EvListenReturn HttpServer ErrServerClosed
     \<notin> set (trace (the (exec env_tls run_listener_failure init)))"
proof -
  note r = exec_run_clean(1)
  note f = exec_run_listener_failure
  have h: "EvListenReturn HttpServer ErrServerClosed
      \<in> set (trace (the (exec env_tls run_clean init)))"
    by (simp add: map_option_the[OF r])
  have g: "EvSend HttpServer RuntimeError
      \<in> set (trace (the (exec env_tls run_listener_failure init)))"
    by (simp add: map_option_the[OF f])
  from C3_cooperative_stop_sends_nothing[OF map_option_Some_the[OF r], of HttpServer]
    C3_cooperative_stop_sends_nothing[OF map_option_Some_the[OF f], of HttpServer] h g
  show ?thesis by blast
qed

text \<open>
  Claim C4, as the code has it: \<^verbatim>\<open>errChan\<close> is made without a buffer (line 93), and stays
  empty with capacity zero through every run.  A listener's task can never complete its send
  on its own; the send completes only by handing the error to \<^verbatim>\<open>main\<close> while
  \<^verbatim>\<open>main\<close> waits in its \<^verbatim>\<open>select\<close>, which then exits with status 1.
\<close>

theorem C4_funnel_is_unbuffered:
  assumes "exec e acts init = Some s"
  shows "cap (errChan s) = 0 \<and> buf (errChan s) = [] \<and> step e (SendBuffered i) s = None \<and>
         (pc s = AtSelect \<and> tasks s i = T_Sending err \<longrightarrow>
            map_option pc (step e (SelectErr i) s) = Some (Exited 1))"
proof -
  from assms obtain ph where c: "chan_inv s"
    by (rule reachable_phase)
  then have c0: "cap (errChan s) = 0" "buf (errChan s) = []"
    by (simp_all add: chan_inv_def)
  have "step e (SendBuffered i) s = None"
  proof (cases "step e (SendBuffered i) s")
    case (Some s')
    from step_SendBuffered[OF Some] c0 show ?thesis by simp
  qed simp
  moreover have "map_option pc (step e (SelectErr i) s) = Some (Exited 1)"
    if "pc s = AtSelect" "tasks s i = T_Sending err"
    using that c0 by (simp add: try_send_def upd_defs)
  ultimately show ?thesis using c0 by blast
qed

theorem C4_witness:
  "pc (the (exec env_tls [ListenReturns HttpServer RuntimeError] init)) = AtSelect \<and>
   tasks (the (exec env_tls [ListenReturns HttpServer RuntimeError] init)) HttpServer =
     T_Sending RuntimeError \<and>
   cap (errChan (the (exec env_tls [ListenReturns HttpServer RuntimeError] init))) = 0 \<and>
   step env_tls (SendBuffered HttpServer)
     (the (exec env_tls [ListenReturns HttpServer RuntimeError] init)) = None \<and>
   map_option pc
     (step env_tls (SelectErr HttpServer)
        (the (exec env_tls [ListenReturns HttpServer RuntimeError] init))) = Some (Exited 1)"
proof -
  note r = exec_listen_failure
  have a: "pc (the (exec env_tls [ListenReturns HttpServer RuntimeError] init)) = AtSelect"
    by (rule map_option_the[OF r(1)])
  have b: "tasks (the (exec env_tls [ListenReturns HttpServer RuntimeError] init)) HttpServer =
     T_Sending RuntimeError"
    using map_option_the[OF r(2)] by (simp add: task_of_def)
  from C4_funnel_is_unbuffered[OF map_option_Some_the[OF r(1)], of HttpServer RuntimeError] a b
  show ?thesis by blast
qed

text \<open>
  Claim C4 as stated asks for a capacity of at least one, so that the send does not block
  without a receiver.  The capacity is zero, and a task whose serve call has failed cannot
  complete its send by itself.
\<close>

theorem C4_counterexample:
  "\<not> 1 \<le> cap (errChan init) \<and>
   map_option (task_of HttpServer) (exec env_tls [ListenReturns HttpServer RuntimeError] init) =
     Some (T_Sending RuntimeError) \<and>
   exec env_tls [ListenReturns HttpServer RuntimeError, SendBuffered HttpServer] init = None"
  by (simp add: eval_defs)




text \<open>
  Claim C6 at the directory \<^verbatim>\<open>/certs\<close>, holding \<^verbatim>\<open>/certs/cert.pem\<close> and
  \<^verbatim>\<open>/certs/key.pem\<close>: both files are present at the two names joined inside the directory,
  yet the probe of \<^verbatim>\<open>startHTTPSServer\<close> looks at \<^verbatim>\<open>/certscert.pem\<close>, reports the material
  missing and returns without starting the TLS listener.  (For a directory written with a
  trailing separator the probe and the specification agree: \<open>probe_agrees_with_trailing_sep\<close>.)
\<close>

theorem C6_probe_misses_material_in_directory:
  "spec_tls_material_present env_noslash \<and>
   snd (startHTTPSServer_probe env_noslash) = None \<and>
   map_option (task_of HttpsServer) (exec env_noslash [HttpsProbe] init) = Some T_Returned"
proof -
  have "spec_tls_material_present env_noslash"
    by (simp add: env_noslash_def path_defs)
  moreover have "map_option (task_of HttpsServer) (exec env_noslash [HttpsProbe] init) =
      Some T_Returned"
    by (simp add: probe_env_noslash eval_defs)
  ultimately show ?thesis
    by (simp add: probe_env_noslash)
qed

text \<open>
  Claim C7 at the directory \<^verbatim>\<open>/certs\<close>, when only \<^verbatim>\<open>/certscert.pem\<close> and
  \<^verbatim>\<open>/certskey.pem\<close> exist: the directory holds neither file, yet the TLS listener starts,
  and when its start fails the task sends the error on the funnel and the process exits with
  status 1.  (When the probe itself finds a file missing, the run degrades to plaintext as
  the claim says: \<open>failed_probe_degrades_to_plaintext\<close>, \<open>failed_probe_step_frame\<close>.)
\<close>

theorem C7_listener_starts_without_material_in_directory:
  "\<not> spec_tls_material_present env_stray \<and>
   map_option (task_of HttpsServer) (exec env_stray [HttpsProbe] init) = Some T_Serving \<and>
   map_option trace
     (exec env_stray [HttpsProbe, ListenReturns HttpsServer StartupError, SelectErr HttpsServer]
        init) =
     Some [EvLog (LogHttpsStarting '':8443''), EvListenReturn HttpsServer StartupError,
           EvSend HttpsServer StartupError, EvRecvErr StartupError, EvFatal] \<and>
   map_option pc
     (exec env_stray [HttpsProbe, ListenReturns HttpsServer StartupError, SelectErr HttpsServer]
        init) = Some (Exited 1)"
proof -
  have "\<not> spec_tls_material_present env_stray"
    by (simp add: env_stray_def path_defs)
  moreover have "map_option (task_of HttpsServer) (exec env_stray [HttpsProbe] init) =
      Some T_Serving"
    by (simp add: probe_env_stray eval_defs)
  moreover have "map_option trace
     (exec env_stray [HttpsProbe, ListenReturns HttpsServer StartupError, SelectErr HttpsServer]
        init) =
     Some [EvLog (LogHttpsStarting '':8443''), EvListenReturn HttpsServer StartupError,
           EvSend HttpsServer StartupError, EvRecvErr StartupError, EvFatal]"
    by (simp add: probe_env_stray eval_defs)
  moreover have "map_option pc
     (exec env_stray [HttpsProbe, ListenReturns HttpsServer StartupError, SelectErr HttpsServer]
        init) = Some (Exited 1)"
    by (simp add: probe_env_stray eval_defs)
  ultimately show ?thesis by blast
qed

text \<open>
  Claim C8, as the code has it: when the process has exited, its status is 0 exactly when
  \<^verbatim>\<open>main\<close> took a signal from \<^verbatim>\<open>quit\<close> and every stop call it made returned without
  error; the status is not 0 when \<^verbatim>\<open>main\<close> received a listener's error (of startup or of
  runtime) from the funnel, nor when any stop call returned an error.  A stop call returns
  the context's error only once five seconds have passed since the signal was taken.
\<close>

theorem C8_exit_status:
  assumes "exec e acts init = Some s" and "pc s = Exited n"
  shows "(n = 0 \<longleftrightarrow>
            (\<exists>sg. EvRecvSignal sg \<in> set (trace s)) \<and>
            (\<forall>i ctx. EvStopCall i ctx \<in> set (trace s) \<longrightarrow>
                       EvStopReturn i ShutdownOk \<in> set (trace s))) \<and>
         ((\<exists>err. EvRecvErr err \<in> set (trace s)) \<longrightarrow> n \<noteq> 0) \<and>
         ((\<exists>i r. r \<noteq> ShutdownOk \<and> EvStopReturn i r \<in> set (trace s)) \<longrightarrow> n \<noteq> 0) \<and>
         (\<forall>acts1 acts2 s0 i.
            acts = acts1 @ SelectQuit # acts2 \<and> exec e acts1 init = Some s0 \<and>
            EvStopReturn i DeadlineExceeded \<in> set (trace s) \<longrightarrow>
              now s0 + 5000000000 \<le> now s)"
proof -
  from assms(1) obtain ph where ph: "in_phase s ph"
    by (rule reachable_phase)
  from ph assms(2) have p: "pc_of ph = Exited n" and ok: "phase_ok ph"
    and late: "phase_late ph (now s)"
    by (simp_all add: in_phase_def)
  note r = phase_recv_signal[OF ph] phase_recv_err[OF ph] phase_stop_call[OF ph]
    phase_stop_return[OF ph]
  from p ok have status: "(n = 0 \<longleftrightarrow>
            (\<exists>sg. EvRecvSignal sg \<in> set (trace s)) \<and>
            (\<forall>i ctx. EvStopCall i ctx \<in> set (trace s) \<longrightarrow>
                       EvStopReturn i ShutdownOk \<in> set (trace s))) \<and>
         ((\<exists>err. EvRecvErr err \<in> set (trace s)) \<longrightarrow> n \<noteq> 0) \<and>
         ((\<exists>i r. r \<noteq> ShutdownOk \<and> EvStopReturn i r \<in> set (trace s)) \<longrightarrow> n \<noteq> 0)"
    unfolding r by (cases ph) (auto split: if_splits)
  have dl: "now s0 + 5000000000 \<le> now s"
    if a: "acts = acts1 @ SelectQuit # acts2" and b: "exec e acts1 init = Some s0"
      and c: "EvStopReturn i DeadlineExceeded \<in> set (trace s)" for acts1 acts2 s0 i
  proof -
    from assms(1) a b obtain s1 where
      q: "step e SelectQuit s0 = Some s1" and rest: "exec e acts2 s1 = Some s"
      by (auto simp: exec_append split: option.splits)
    from phase_after_select[OF b q rest ph] obtain sg r where
      cases: "ph = StoppingHttp sg (now s0) \<or> ph = StoppingHttps sg (now s0) \<or>
              ph = FailedStopHttp sg (now s0) r \<or> ph = StoppedHttps sg (now s0) r"
      by blast
    from c have "EvStopReturn i DeadlineExceeded \<in> set (events_of ph)"
      by (simp add: phase_stop_return[OF ph])
    with cases late show ?thesis
      by (auto simp: Second_def)
  qed
  from status dl show ?thesis by blast
qed

theorem C8_witness:
  "pc (the (exec env_tls run_clean init)) = Exited 0 \<and>
   EvRecvSignal SIGINT \<in> set (trace (the (exec env_tls run_clean init))) \<and>
   EvStopReturn HttpServer ShutdownOk \<in> set (trace (the (exec env_tls run_clean init))) \<and>
   EvStopReturn HttpsServer ShutdownOk \<in> set (trace (the (exec env_tls run_clean init))) \<and>
   EvRecvErr RuntimeError \<in> set (trace (the (exec env_tls run_listener_failure init))) \<and>
   pc (the (exec env_tls run_listener_failure init)) = Exited 1 \<and>
   EvStopReturn HttpServer DeadlineExceeded
     \<in> set (trace (the (exec env_tls run_late_timeout init))) \<and>
   pc (the (exec env_tls run_late_timeout init)) = Exited 1 \<and>
   now (the (exec env_tls [Tick 7, Signal SIGTERM] init)) + 5000000000
     \<le> now (the (exec env_tls run_late_timeout init))"
proof -
  note r = exec_run_clean
  note f = exec_run_listener_failure
  note t = exec_run_late_timeout
  have p0: "pc (the (exec env_tls run_clean init)) = Exited 0"
    by (rule map_option_the[OF r(2)])
  have p1: "pc (the (exec env_tls run_listener_failure init)) = Exited 1"
    by (simp add: run_listener_failure_def probe_env_tls eval_defs)
  have p2: "pc (the (exec env_tls run_late_timeout init)) = Exited 1"
    by (rule map_option_the[OF t(2)])
  have h0: "EvRecvSignal SIGINT \<in> set (trace (the (exec env_tls run_clean init)))"
    by (simp add: map_option_the[OF r(1)])
  have h1: "EvRecvErr RuntimeError \<in> set (trace (the (exec env_tls run_listener_failure init)))"
    by (simp add: map_option_the[OF f])
  have h3: "EvStopReturn HttpServer ShutdownOk \<in> set (trace (the (exec env_tls run_clean init)))"
    "EvStopReturn HttpsServer ShutdownOk \<in> set (trace (the (exec env_tls run_clean init)))"
    by (simp_all add: map_option_the[OF r(1)])
  have h2: "EvStopReturn HttpServer DeadlineExceeded
     \<in> set (trace (the (exec env_tls run_late_timeout init)))"
    by (simp add: map_option_the[OF t(1)])
  have sp: "run_late_timeout =
      [Tick 7, Signal SIGTERM] @ SelectQuit # [Tick (5 * Second), ShutdownReturns DeadlineExceeded]"
    by (simp add: run_late_timeout_def)
  from C8_exit_status[OF map_option_Some_the[OF t(1)] p2] sp
    map_option_Some_the[OF t(3)] h2
  have late: "now (the (exec env_tls [Tick 7, Signal SIGTERM] init)) + 5000000000
     \<le> now (the (exec env_tls run_late_timeout init))"
    by blast
  from C8_exit_status[OF map_option_Some_the[OF r(1)] p0]
    C8_exit_status[OF map_option_Some_the[OF f] p1] p0 p1 p2 h0 h1 h2 h3 late
  show ?thesis by blast
qed

text \<open>
  Claim C8 as stated makes the status depend on every listener failure and on the stop calls
  finishing within the grace period.  In the first run below the plaintext listener has
  failed at runtime and waits at its send, a signal is pending too, the \<^verbatim>\<open>select\<close> takes
  the signal, both stop calls return without error and the status is 0.  In the second run
  the plaintext server's stop call returns without error one nanosecond after the deadline
  (its last look at the connections found them idle), the TLS server's call, made with the
  expired context, returns without error as well, and the status is 0.
\<close>

theorem C8_counterexample:
  "map_option pc (exec env_tls run_failure_then_signal init) = Some (Exited 0) \<and>
   map_option trace (exec env_tls run_failure_then_signal init) =
     Some [EvListenReturn HttpServer RuntimeError, EvRecvSignal SIGINT,
           EvStopCall HttpServer \<lparr>deadline = 5000000000\<rparr>, EvStopReturn HttpServer ShutdownOk,
           EvStopCall HttpsServer \<lparr>deadline = 5000000000\<rparr>,
           EvStopReturn HttpsServer ShutdownOk] \<and>
   map_option pc (exec env_tls run_late_stop init) = Some (Exited 0) \<and>
   map_option now (exec env_tls run_late_stop init) = Some 5000000001 \<and>
   map_option (stop_events \<circ> trace) (exec env_tls run_late_stop init) =
     Some [EvStopCall HttpServer \<lparr>deadline = 5000000000\<rparr>, EvStopReturn HttpServer ShutdownOk,
           EvStopCall HttpsServer \<lparr>deadline = 5000000000\<rparr>,
           EvStopReturn HttpsServer ShutdownOk]"
  by (simp add: run_failure_then_signal_def run_late_stop_def eval_defs)

text \<open>
  Claim C9: in every run, whatever signals arrive and whatever the listeners do, each server
  receives at most one \<^verbatim>\<open>Shutdown\<close> call.
\<close>

theorem C9_stop_at_most_once:
  assumes "exec e acts init = Some s"
  shows "stop_calls i (trace s) \<le> 1"
proof -
  from assms obtain ph where ph: "in_phase s ph"
    by (rule reachable_phase)
  from phase_stop_calls[OF ph, of i] show ?thesis
    by (cases ph) (simp_all add: stop_calls_def)
qed

theorem C9_witness:
  "stop_calls HttpServer (trace (the (exec env_tls run_clean init))) \<le> 1"
  using C9_stop_at_most_once[OF exec_run_clean_Some] .

text \<open>
  Claim C10: in a shutdown started by a signal, the first stop call is the plaintext
  server's; when that call returns an error the process has exited with status 1 and the TLS
  server has received no stop call.
\<close>

theorem C10_plaintext_first_and_failure_skips_tls:
  assumes "exec e acts init = Some s" and "EvRecvSignal sg \<in> set (trace s)"
  shows "(\<exists>ctx. take 1 (stop_events (trace s)) = [EvStopCall HttpServer ctx]) \<and>
         (\<forall>r. r \<noteq> ShutdownOk \<and> EvStopReturn HttpServer r \<in> set (trace s) \<longrightarrow>
              pc s = Exited 1 \<and> stop_calls HttpsServer (trace s) = 0)"
proof -
  from assms(1) obtain ph where ph: "in_phase s ph"
    by (rule reachable_phase)
  from assms(2) ph have m: "EvRecvSignal sg \<in> set (events_of ph)"
    by (simp add: phase_recv_signal)
  from ph have p: "pc s = pc_of ph" and ok: "phase_ok ph"
    by (simp_all add: in_phase_def)
  note r = phase_stop_return[OF ph] phase_stop_events[OF ph] phase_stop_calls[OF ph]
  from m p ok show ?thesis
    unfolding r by (cases ph) (auto simp: stop_events_def stop_calls_def)
qed

theorem C10_witness:
  "EvRecvSignal SIGTERM \<in> set (trace (the (exec env_tls run_stop_timeout init))) \<and>
   EvStopReturn HttpServer DeadlineExceeded
     \<in> set (trace (the (exec env_tls run_stop_timeout init))) \<and>
   pc (the (exec env_tls run_stop_timeout init)) = Exited 1 \<and>
   stop_calls HttpsServer (trace (the (exec env_tls run_stop_timeout init))) = 0"
proof -
  note t = exec_run_stop_timeout
  have h: "EvRecvSignal SIGTERM \<in> set (trace (the (exec env_tls run_stop_timeout init)))"
    by (simp add: map_option_the[OF t])
  have g: "EvStopReturn HttpServer DeadlineExceeded
     \<in> set (trace (the (exec env_tls run_stop_timeout init)))"
    by (simp add: map_option_the[OF t])
  from C10_plaintext_first_and_failure_skips_tls[OF map_option_Some_the[OF t] h] h g
  show ?thesis by blast
qed

end
